theory Spec2Isabelle
  imports Complex_Main "HOL-Library.Word"
begin

section \<open>Data model\<close>

text \<open>
  Python \<open>bytes\<close> are lists of 8-bit words; a Python \<open>str\<close> is the list of
  its Unicode code points. The offsets are Python integers.
\<close>

type_synonym byte = "8 word"
type_synonym bytes = "byte list"
type_synonym ustr = "nat list"

text \<open>
  The functions of the Python standard library whose behaviour rests on large tables (the
  CP932, Shift-JIS and UTF-8 codecs, \<open>str.isprintable\<close>, \<open>int(s, 16)\<close>) are
  parameters of the model. \<open>None\<close> stands for the exception the call raises
  (\<open>UnicodeDecodeError\<close>, \<open>UnicodeEncodeError\<close>, \<open>ValueError\<close>).
\<close>

record pylib =
  dec_cp932 :: "bytes \<Rightarrow> ustr option"
  dec_sjis :: "bytes \<Rightarrow> ustr option"
  dec_utf8 :: "bytes \<Rightarrow> ustr option"
  enc_cp932 :: "ustr \<Rightarrow> bytes option"
  enc_sjis :: "ustr \<Rightarrow> bytes option"
  isprintable :: "nat \<Rightarrow> bool"
  int16 :: "ustr \<Rightarrow> int option"

datatype encoding = CP932 | SHIFT_JIS | UTF8 | LATIN1

subsection \<open>String helpers of the Python runtime\<close>

text \<open>\<open>str.isspace\<close> on one code point (the Unicode white-space characters).\<close>

definition py_isspace :: "nat \<Rightarrow> bool" where
  "py_isspace c \<longleftrightarrow>
     (9 \<le> c \<and> c \<le> 13) \<or> (28 \<le> c \<and> c \<le> 32) \<or> c = 133 \<or> c = 160 \<or> c = 5760 \<or>
     (8192 \<le> c \<and> c \<le> 8202) \<or> c = 8232 \<or> c = 8233 \<or> c = 8239 \<or> c = 8287 \<or> c = 12288"

definition strip :: "ustr \<Rightarrow> ustr" where
  "strip s = rev (dropWhile py_isspace (rev (dropWhile py_isspace s)))"

definition startswith :: "'a list \<Rightarrow> 'a list \<Rightarrow> bool" where
  "startswith s p \<longleftrightarrow> take (length p) s = p"

definition endswith :: "'a list \<Rightarrow> 'a list \<Rightarrow> bool" where
  "endswith s p \<longleftrightarrow> length p \<le> length s \<and> drop (length s - length p) s = p"

text \<open>The slice \<open>data[i:j]\<close> for \<open>0 \<le> i\<close>, \<open>0 \<le> j\<close>.\<close>

definition slice :: "'a list \<Rightarrow> nat \<Rightarrow> nat \<Rightarrow> 'a list" where
  "slice xs i j = take (j - i) (drop i xs)"

text \<open>\<open>str.replace(old, new)\<close> for a non-empty \<open>old\<close>: left to right, not overlapping.\<close>

fun replace_str :: "'a list \<Rightarrow> 'a list \<Rightarrow> 'a list \<Rightarrow> 'a list" where
  "replace_str old new [] = []"
| "replace_str old new (c # cs) =
     (if old \<noteq> [] \<and> startswith (c # cs) old
      then new @ replace_str old new (drop (length old) (c # cs))
      else c # replace_str old new cs)"

text \<open>\<open>str.split(sep)\<close> for a one-character separator.\<close>

fun split_on :: "'a \<Rightarrow> 'a list \<Rightarrow> 'a list list" where
  "split_on sep [] = [[]]"
| "split_on sep (c # cs) =
     (if c = sep then [] # split_on sep cs
      else (case split_on sep cs of [] \<Rightarrow> [[c]] | p # ps \<Rightarrow> (c # p) # ps))"

section \<open>decompiler.py\<close>

definition DECODERS :: "encoding list" where
  "DECODERS = [CP932, SHIFT_JIS, UTF8, LATIN1]"

definition SPEAKER_BYTE :: bytes where
  "SPEAKER_BYTE = [0x0F]"

text \<open>\<open>raw.decode(enc)\<close>; Latin-1 maps every byte to the code point of the same value.\<close>

fun decode :: "pylib \<Rightarrow> encoding \<Rightarrow> bytes \<Rightarrow> ustr option" where
  "decode L CP932 raw = dec_cp932 L raw"
| "decode L SHIFT_JIS raw = dec_sjis L raw"
| "decode L UTF8 raw = dec_utf8 L raw"
| "decode L LATIN1 raw = Some (map unat raw)"

text \<open>The \<open>for enc in DECODERS\<close> loop of \<open>decode_try\<close>: the first decoder that does not raise.\<close>

fun decode_loop :: "pylib \<Rightarrow> encoding list \<Rightarrow> bytes \<Rightarrow> (ustr \<times> encoding) option" where
  "decode_loop L [] raw = None"
| "decode_loop L (enc # encs) raw =
     (case decode L enc raw of Some s \<Rightarrow> Some (s, enc) | None \<Rightarrow> decode_loop L encs raw)"

text \<open>After the loop: \<open>raw.decode("latin-1", errors="replace")\<close>.\<close>

definition decode_try :: "pylib \<Rightarrow> bytes \<Rightarrow> ustr \<times> encoding" where
  "decode_try L raw =
     (case decode_loop L DECODERS raw of Some r \<Rightarrow> r | None \<Rightarrow> (map unat raw, LATIN1))"

subsection \<open>extract_all_null_strings\<close>

type_synonym run = "nat \<times> nat \<times> bytes \<times> ustr"

text \<open>The inner loop \<open>while pos < N and data[pos] != 0: pos += 1\<close>.\<close>

function scan_run :: "bytes \<Rightarrow> nat \<Rightarrow> nat" where
  "scan_run data pos =
     (if pos < length data \<and> data ! pos \<noteq> 0 then scan_run data (pos + 1) else pos)"
  by pat_completeness auto
termination
  by (relation "measure (\<lambda>(data, pos). length data - pos)") auto

declare scan_run.simps [simp del]

lemma scan_run_ge: "pos \<le> scan_run data pos"
proof (induction data pos rule: scan_run.induct)
  case (1 data pos)
  show ?case
  proof (cases "pos < length data \<and> data ! pos \<noteq> 0")
    case True
    with 1 have "pos + 1 \<le> scan_run data (pos + 1)" by simp
    moreover from True have "scan_run data pos = scan_run data (pos + 1)"
      by (simp add: scan_run.simps [of data pos])
    ultimately show ?thesis by simp
  next
    case False
    then show ?thesis by (auto simp add: scan_run.simps [of data pos])
  qed
qed

text \<open>The outer loop, with the position and the output list as loop state.\<close>

function extract_loop :: "pylib \<Rightarrow> bytes \<Rightarrow> nat \<Rightarrow> run list \<Rightarrow> run list" where
  "extract_loop L data pos out =
     (if pos < length data then
        (if data ! pos = 0 then extract_loop L data (pos + 1) out
         else
           (let start = pos;
                end = scan_run data pos;
                raw = slice data start end;
                decoded = fst (decode_try L raw)
            in extract_loop L data (end + 1) (out @ [(start, end, raw, decoded)])))
      else out)"
  by pat_completeness auto
termination
proof (relation "measure (\<lambda>(L, data, pos, out). length data - pos)")
  show "wf (measure (\<lambda>(L, data, pos, out). length data - pos))" by simp
next
  fix L :: pylib and data :: bytes and pos :: nat and out :: "run list"
  assume "pos < length data" "data ! pos = 0"
  then show "((L, data, pos + 1, out), (L, data, pos, out))
      \<in> measure (\<lambda>(L, data, pos, out). length data - pos)" by simp
next
  fix L :: pylib and data :: bytes and pos :: nat and out :: "run list"
    and x xa xb xc
  assume "pos < length data" "data ! pos \<noteq> 0" "x = pos" "xa = scan_run data pos"
  moreover have "pos \<le> scan_run data pos" by (rule scan_run_ge)
  ultimately show "((L, data, xa + 1, out @ [(x, xa, xb, xc)]), (L, data, pos, out))
      \<in> measure (\<lambda>(L, data, pos, out). length data - pos)" by simp
qed

declare extract_loop.simps [simp del]

definition extract_all_null_strings :: "pylib \<Rightarrow> bytes \<Rightarrow> run list" where
  "extract_all_null_strings L data = extract_loop L data 0 []"

subsection \<open>The regular expressions of the module\<close>

text \<open>
  The patterns are compiled with \<open>re.I\<close>, which on \<open>str\<close> patterns folds case over
  Unicode: besides the two ASCII cases, \<open>S\<close> matches U+017F, and the class
  \<open>[A-Za-z]\<close> matches U+0130, U+0131, U+017F and U+212A. \<open>$\<close> matches at the end
  of the string and before a newline that ends the string; \<open>.\<close> matches anything but a
  newline.
\<close>

definition is_digit :: "nat \<Rightarrow> bool" where
  "is_digit c \<longleftrightarrow> 48 \<le> c \<and> c \<le> 57"

definition is_alpha :: "nat \<Rightarrow> bool" where
  "is_alpha c \<longleftrightarrow> (65 \<le> c \<and> c \<le> 90) \<or> (97 \<le> c \<and> c \<le> 122)"

text \<open>\<open>[0-9A-Za-z_]\<close>, \<open>[0-9A-Za-z_.-]\<close> and \<open>[0-9_]\<close> under \<open>re.I\<close>.\<close>

definition ci_word :: "nat \<Rightarrow> bool" where
  "ci_word c \<longleftrightarrow> is_digit c \<or> is_alpha c \<or> c = 95 \<or> c = 0x130 \<or> c = 0x131 \<or> c = 0x17F \<or> c = 0x212A"

definition ci_dotted :: "nat \<Rightarrow> bool" where
  "ci_dotted c \<longleftrightarrow> ci_word c \<or> c = 46 \<or> c = 45"

definition digit_us :: "nat \<Rightarrow> bool" where
  "digit_us c \<longleftrightarrow> is_digit c \<or> c = 95"

text \<open>One literal character of a pattern under \<open>re.I\<close>, \<open>x\<close> given in upper case.\<close>

definition ci_lit :: "nat \<Rightarrow> nat \<Rightarrow> bool" where
  "ci_lit x c \<longleftrightarrow>
     (if 65 \<le> x \<and> x \<le> 90 then c = x \<or> c = x + 32 \<or> (x = 83 \<and> c = 0x17F) else c = x)"

definition ci_prefix :: "ustr \<Rightarrow> ustr \<Rightarrow> bool" where
  "ci_prefix p s \<longleftrightarrow> length p \<le> length s \<and> list_all2 ci_lit p (take (length p) s)"

definition dollar :: "(ustr \<Rightarrow> bool) \<Rightarrow> ustr \<Rightarrow> bool" where
  "dollar P t \<longleftrightarrow> P t \<or> (t \<noteq> [] \<and> last t = 10 \<and> P (butlast t))"

text \<open>\<open>^PREFIX[class]+$\<close> with \<open>re.I\<close>.\<close>

definition pat_prefixed :: "ustr \<Rightarrow> (nat \<Rightarrow> bool) \<Rightarrow> ustr \<Rightarrow> bool" where
  "pat_prefixed p cls s \<longleftrightarrow>
     ci_prefix p s \<and> dollar (\<lambda>b. b \<noteq> [] \<and> list_all cls b) (drop (length p) s)"

text \<open>\<open>.+\.ogg$\<close> with \<open>re.I\<close>, searched anywhere.\<close>

definition pat_ogg :: "ustr \<Rightarrow> bool" where
  "pat_ogg s \<longleftrightarrow>
     dollar (\<lambda>t. 5 \<le> length t \<and> ci_prefix [46, 79, 71, 71] (drop (length t - 4) t) \<and>
                 t ! (length t - 5) \<noteq> 10) s"

definition KEEP_PATTERNS :: "(ustr \<Rightarrow> bool) list" where
  "KEEP_PATTERNS =
     [pat_prefixed [83, 69, 95] ci_dotted,
      pat_prefixed [66, 71, 77, 95] ci_dotted,
      pat_prefixed [66, 71] digit_us,
      pat_prefixed [83, 84] ci_word,
      pat_prefixed [68, 65, 89] ci_word,
      pat_prefixed [72, 79, 83, 95] ci_word,
      pat_ogg,
      (\<lambda>s. 37 \<in> set s)]"

text \<open>\<open>re_cjk\<close>: one character of U+3000..U+303F, U+3040..U+309F, U+30A0..U+30FF, U+4E00..U+9FFF.\<close>

definition cjk_char :: "nat \<Rightarrow> bool" where
  "cjk_char c \<longleftrightarrow>
     (0x3000 \<le> c \<and> c \<le> 0x303F) \<or> (0x3040 \<le> c \<and> c \<le> 0x309F) \<or>
     (0x30A0 \<le> c \<and> c \<le> 0x30FF) \<or> (0x4E00 \<le> c \<and> c \<le> 0x9FFF)"

definition re_cjk :: "ustr \<Rightarrow> bool" where
  "re_cjk s \<longleftrightarrow> list_ex cjk_char s"

text \<open>\<open>re_japanese_name\<close>: one to eight characters of U+3040..U+30FF or U+4E00..U+9FFF
  between \<open>^\<close> and \<open>$\<close>; anchored at the start, \<open>search\<close> and \<open>match\<close>
  agree on it.\<close>

definition name_char :: "nat \<Rightarrow> bool" where
  "name_char c \<longleftrightarrow> (0x3040 \<le> c \<and> c \<le> 0x30FF) \<or> (0x4E00 \<le> c \<and> c \<le> 0x9FFF)"

definition re_japanese_name :: "ustr \<Rightarrow> bool" where
  "re_japanese_name s \<longleftrightarrow>
     dollar (\<lambda>t. 1 \<le> length t \<and> length t \<le> 8 \<and> list_all name_char t) s"

subsection \<open>is\_meaningful, sanitize, convert\_speaker\<close>

text \<open>
  \<open>printable / len(s) >= 0.5\<close> is a division of two Python integers; it is taken in the
  reals, with which the float comparison agrees for every length below \<open>2 ^ 53\<close>.
\<close>

definition is_meaningful :: "pylib \<Rightarrow> ustr \<Rightarrow> bytes \<Rightarrow> bool" where
  "is_meaningful L decoded raw =
     (let s = strip decoded in
      if s = [] then False
      else if startswith raw SPEAKER_BYTE then True
      else if re_cjk s then True
      else if list_ex (\<lambda>p. p s) KEEP_PATTERNS then True
      else
        (let printable = length (filter (isprintable L) s) in
         if 3 \<le> length s \<and> real printable / real (length s) \<ge> 0.5 then True else False))"

definition sanitize :: "ustr \<Rightarrow> ustr" where
  "sanitize s = replace_str [10] [92, 110] (replace_str [13] [] s)"

definition convert_speaker :: "pylib \<Rightarrow> ustr \<Rightarrow> bytes \<Rightarrow> ustr" where
  "convert_speaker L decoded raw =
     (if \<not> startswith raw SPEAKER_BYTE then decoded
      else
        (let idx = length (takeWhile (\<lambda>b. b = 0x0F) raw);
             rest = drop idx raw
         in if rest = [] then decoded
            else
              (let remainder = (case dec_cp932 L rest of Some r \<Rightarrow> r
                                | None \<Rightarrow> fst (decode_try L rest));
                   rem = strip remainder
               in if 1 \<le> length rem \<and> length rem \<le> 8 \<and> re_japanese_name rem
                  then 46 # rem
                  else rem)))"

subsection \<open>decompile\_wsc\_file\<close>

definition hex_digit :: "nat \<Rightarrow> nat" where
  "hex_digit d = (if d < 10 then 48 + d else 55 + d)"

fun hex_str :: "nat \<Rightarrow> ustr" where
  "hex_str n = (if n < 16 then [hex_digit n] else hex_str (n div 16) @ [hex_digit (n mod 16)])"

declare hex_str.simps [simp del]

text \<open>The format \<open>{n:08X}\<close>.\<close>

definition hex08 :: "nat \<Rightarrow> ustr" where
  "hex08 n = replicate (8 - length (hex_str n)) 48 @ hex_str n"

text \<open>The text written for the kept records, in order; the file is the model's result.\<close>

fun render :: "pylib \<Rightarrow> run list \<Rightarrow> ustr" where
  "render L [] = []"
| "render L ((start, end, raw, decoded) # rs) =
     (if \<not> is_meaningful L decoded raw then render L rs
      else
        (let cleaned = convert_speaker L (sanitize decoded) raw
         in [60] @ hex08 start @ [58] @ hex08 end @ [62, 10] @ cleaned @ [10, 10] @ render L rs))"

definition decompile_wsc_file :: "pylib \<Rightarrow> bytes \<Rightarrow> ustr" where
  "decompile_wsc_file L data = render L (extract_all_null_strings L data)"

section \<open>recompiler.py\<close>

text \<open>The messages are kept as values; the number is the one the message prints.\<close>

datatype message =
    InvalidOffsetFormat nat ustr
  | EnsureFormat
  | ExpectedOffsetFormat nat ustr
  | NoValidEntries
  | EnsureFileContains
  | OffsetOrderingIssue nat
  | NotCp932Compatible nat
  | ConsiderModifying nat ustr
  | SpeakerUnusual nat ustr
  | SpeakerShouldBe
  | EmptyContent nat
  | OffsetConflict nat
  | SuccessfullyRecompiled nat
  | OffsetsRecalculated
  | FailedToReconstruct

record WSCEntry =
  start_offset :: int
  end_offset :: int
  content :: ustr
  is_speaker :: bool
  binary_data :: "bytes option"
  entry_warnings :: "message list"
  entry_errors :: "message list"
  original_length :: int

definition new_entry :: "int \<Rightarrow> int \<Rightarrow> ustr \<Rightarrow> bool \<Rightarrow> WSCEntry" where
  "new_entry s e c sp =
     \<lparr>start_offset = s, end_offset = e, content = c, is_speaker = sp, binary_data = None,
      entry_warnings = [], entry_errors = [], original_length = e - s\<rparr>"

record ValidationResult =
  is_valid :: bool
  errors :: "message list"
  warnings :: "message list"
  suggestions :: "message list"
  needs_recalculation :: bool

definition new_result :: ValidationResult where
  "new_result =
     \<lparr>is_valid = False, errors = [], warnings = [], suggestions = [],
      needs_recalculation = False\<rparr>"

definition add_error :: "message \<Rightarrow> ValidationResult \<Rightarrow> ValidationResult" where
  "add_error m r = r\<lparr>errors := errors r @ [m], is_valid := False\<rparr>"

definition add_warning :: "message \<Rightarrow> ValidationResult \<Rightarrow> ValidationResult" where
  "add_warning m r = r\<lparr>warnings := warnings r @ [m]\<rparr>"

definition add_suggestion :: "message \<Rightarrow> ValidationResult \<Rightarrow> ValidationResult" where
  "add_suggestion m r = r\<lparr>suggestions := suggestions r @ [m]\<rparr>"

subsection \<open>parse\_github\_format\<close>

text \<open>The test \<open>line.startswith('<') and ':' in line and line.endswith('>')\<close>.\<close>

definition looks_like_offsets :: "ustr \<Rightarrow> bool" where
  "looks_like_offsets line \<longleftrightarrow> startswith line [60] \<and> 58 \<in> set line \<and> endswith line [62]"

text \<open>
  The first statements of the \<open>try\<close> block: \<open>line[1:-1]\<close>, the split at the colons and
  the two \<open>int(_, 16)\<close>. \<open>None\<close> is the \<open>ValueError\<close> of an unpacking of other than
  two parts or of \<open>int\<close>.
\<close>

definition parse_offsets :: "pylib \<Rightarrow> ustr \<Rightarrow> (int \<times> int) option" where
  "parse_offsets L line =
     (let offset_content = butlast (tl line) in
      case split_on 58 offset_content of
        [start_hex, end_hex] \<Rightarrow>
          (case int16 L start_hex of
             None \<Rightarrow> None
           | Some start_off \<Rightarrow>
               (case int16 L end_hex of
                  None \<Rightarrow> None
                | Some end_off \<Rightarrow> Some (start_off, end_off)))
      | _ \<Rightarrow> None)"

text \<open>The entry built from the offsets and the line after the header (empty at the end).\<close>

definition entry_of :: "int \<Rightarrow> int \<Rightarrow> ustr list \<Rightarrow> WSCEntry" where
  "entry_of start_off end_off rest =
     (let content = (case rest of [] \<Rightarrow> [] | c # _ \<Rightarrow> strip c);
          speaker = (startswith content [46] \<and> length content > 1);
          clean_content = (if speaker then tl content else content);
          clean_content = replace_str [92, 110] [10] clean_content
      in new_entry start_off end_off clean_content speaker)"

text \<open>The \<open>while i < len(lines)\<close> loop: the lines from index \<open>i\<close> on, and \<open>i\<close>.\<close>

fun parse_loop ::
  "pylib \<Rightarrow> ustr list \<Rightarrow> nat \<Rightarrow> WSCEntry list \<Rightarrow> ValidationResult
     \<Rightarrow> WSCEntry list \<times> ValidationResult" where
  "parse_loop L [] i entries result = (entries, result)"
| "parse_loop L (l # rest) i entries result =
     (let line = strip l in
      if line = [] then parse_loop L rest (i + 1) entries result
      else if looks_like_offsets line then
        (case parse_offsets L line of
           Some (start_off, end_off) \<Rightarrow>
             parse_loop L (drop 1 rest) (i + 2) (entries @ [entry_of start_off end_off rest]) result
         | None \<Rightarrow>
             parse_loop L rest (i + 1) entries
               (add_suggestion EnsureFormat (add_error (InvalidOffsetFormat (i + 1) line) result)))
      else
        parse_loop L rest (i + 1) entries
          (add_error (ExpectedOffsetFormat (i + 1) (take 50 line)) result))"

text \<open>The check \<open>for i in range(1, len(entries))\<close> on the starts of neighbours.\<close>

fun check_ordering :: "nat \<Rightarrow> WSCEntry list \<Rightarrow> ValidationResult \<Rightarrow> ValidationResult" where
  "check_ordering i (a # b # rest) result =
     check_ordering (i + 1) (b # rest)
       (if start_offset b \<le> start_offset a
        then (add_warning (OffsetOrderingIssue i) result)\<lparr>needs_recalculation := True\<rparr>
        else result)"
| "check_ordering i rest result = result"

definition parse_github_format :: "pylib \<Rightarrow> ustr \<Rightarrow> WSCEntry list \<times> ValidationResult" where
  "parse_github_format L text =
     (let lines = split_on 10 (strip text);
          (entries, result) = parse_loop L lines 0 [] new_result
      in if entries \<noteq> []
         then (entries, check_ordering 1 entries (result\<lparr>is_valid := (errors result = [])\<rparr>))
         else (entries, add_suggestion EnsureFileContains (add_error NoValidEntries result)))"

subsection \<open>content\_to\_binary\<close>

definition encode_latin1 :: "ustr \<Rightarrow> bytes option" where
  "encode_latin1 s = (if list_all (\<lambda>c. c < 256) s then Some (map of_nat s) else None)"

text \<open>\<open>encode('latin-1', errors='replace')\<close>: a question mark for what Latin-1 lacks.\<close>

definition encode_latin1_replace :: "ustr \<Rightarrow> bytes" where
  "encode_latin1_replace s = map (\<lambda>c. if c < 256 then of_nat c else 0x3F) s"

text \<open>The loop \<open>for encoding in ['cp932', 'shift_jis', 'latin-1']\<close>.\<close>

definition encode_fallbacks :: "pylib \<Rightarrow> ustr \<Rightarrow> bytes option" where
  "encode_fallbacks L s =
     (case enc_cp932 L s of
        Some encoded \<Rightarrow> Some encoded
      | None \<Rightarrow> (case enc_sjis L s of Some encoded \<Rightarrow> Some encoded | None \<Rightarrow> encode_latin1 s))"

text \<open>
  The block the three branches of \<open>content_to_binary\<close> share, up to the marker bytes put
  in front: CP932, then the fallback loop, then Latin-1 with replacement. The last of
  these cannot raise, so the handler returning a lone null is never entered.
\<close>

definition encode_marked :: "bytes \<Rightarrow> pylib \<Rightarrow> ustr \<Rightarrow> bytes" where
  "encode_marked marker L s =
     (case enc_cp932 L s of
        Some encoded \<Rightarrow> marker @ encoded @ [0]
      | None \<Rightarrow>
          (case encode_fallbacks L s of
             Some encoded \<Rightarrow> marker @ encoded @ [0]
           | None \<Rightarrow> marker @ encode_latin1_replace s @ [0]))"

text \<open>\<open>re.match(r'^(DAY|BG|ST|HOS|SE|BGM|%).*', content)\<close>, case sensitive.\<close>

definition has_resource_pattern :: "ustr \<Rightarrow> bool" where
  "has_resource_pattern s \<longleftrightarrow>
     list_ex (startswith s)
       [[68, 65, 89], [66, 71], [83, 84], [72, 79, 83], [83, 69], [66, 71, 77], [37]]"

definition content_to_binary :: "pylib \<Rightarrow> ustr \<Rightarrow> bool \<Rightarrow> bytes" where
  "content_to_binary L c speaker =
     (if speaker then
        (if strip c \<noteq> [] then encode_marked [0x0F, 0x0F] L (strip c) else [0])
      else
        (if strip c \<noteq> [] then
           (let has_japanese = re_japanese_name c in
            if has_japanese \<and> \<not> has_resource_pattern c
            then encode_marked [0x0F] L c
            else encode_marked [] L c)
         else [0]))"

subsection \<open>Offsets and reconstruction\<close>

definition entry_binary :: "pylib \<Rightarrow> WSCEntry \<Rightarrow> bytes" where
  "entry_binary L e = content_to_binary L (content e) (is_speaker e)"

text \<open>\<open>calculate_new_offsets\<close>, with the running \<open>current_offset\<close> as argument.\<close>

fun calculate_from :: "pylib \<Rightarrow> int \<Rightarrow> WSCEntry list \<Rightarrow> WSCEntry list" where
  "calculate_from L current_offset [] = []"
| "calculate_from L current_offset (e # es) =
     (let b = entry_binary L e
      in e\<lparr>binary_data := Some b, start_offset := current_offset,
            end_offset := current_offset + int (length b) - 1\<rparr>
         # calculate_from L (current_offset + int (length b)) es)"

definition calculate_new_offsets :: "pylib \<Rightarrow> WSCEntry list \<Rightarrow> WSCEntry list" where
  "calculate_new_offsets L entries = calculate_from L 0 entries"

text \<open>
  \<open>preserve_original_offsets\<close> returns at the first entry whose length differs; the
  entries it has visited keep the binary data it stored in them.
\<close>

fun preserve_original_offsets :: "pylib \<Rightarrow> WSCEntry list \<Rightarrow> bool \<times> WSCEntry list" where
  "preserve_original_offsets L [] = (True, [])"
| "preserve_original_offsets L (e # es) =
     (let b = entry_binary L e;
          e' = e\<lparr>binary_data := Some b\<rparr>;
          expected_length = original_length e + 1;
          actual_length = int (length b)
      in if actual_length \<noteq> expected_length then (False, e' # es)
         else (let (ok, es') = preserve_original_offsets L es in (ok, e' # es')))"

text \<open>\<open>result += entry.binary_data\<close>; \<open>None\<close> is the \<open>TypeError\<close> of adding \<open>None\<close>.\<close>

fun join_binary :: "bytes \<Rightarrow> WSCEntry list \<Rightarrow> bytes option" where
  "join_binary result [] = Some result"
| "join_binary result (e # es) =
     (case binary_data e of None \<Rightarrow> None | Some b \<Rightarrow> join_binary (result @ b) es)"

definition reconstruct_wsc_binary ::
  "pylib \<Rightarrow> WSCEntry list \<Rightarrow> bool \<Rightarrow> bytes option \<times> WSCEntry list" where
  "reconstruct_wsc_binary L entries preserve_offsets =
     (let entries' =
        (if preserve_offsets then
           (let (ok, es) = preserve_original_offsets L entries
            in if \<not> ok then calculate_new_offsets L es else es)
         else calculate_new_offsets L entries)
      in (join_binary [] entries', entries'))"

subsection \<open>validate\_wsc\_entries and recompile\_wsc\_file\<close>

definition validate_entry :: "pylib \<Rightarrow> nat \<Rightarrow> WSCEntry \<Rightarrow> ValidationResult \<Rightarrow> ValidationResult" where
  "validate_entry L i e r0 =
     (let r1 = (if enc_cp932 L (content e) = None
                then add_suggestion (ConsiderModifying (i + 1) (take 50 (content e)))
                       (add_warning (NotCp932Compatible (i + 1)) r0)
                else r0);
          r2 = (if is_speaker e \<and>
                   (\<not> re_japanese_name (strip (content e)) \<or> length (strip (content e)) > 8)
                then add_suggestion SpeakerShouldBe
                       (add_warning (SpeakerUnusual (i + 1) (content e)) r1)
                else r1)
      in if strip (content e) = [] then add_warning (EmptyContent (i + 1)) r2 else r2)"

fun validate_each :: "pylib \<Rightarrow> nat \<Rightarrow> WSCEntry list \<Rightarrow> ValidationResult \<Rightarrow> ValidationResult" where
  "validate_each L i [] r = r"
| "validate_each L i (e # es) r = validate_each L (i + 1) es (validate_entry L i e r)"

fun check_conflicts :: "nat \<Rightarrow> WSCEntry list \<Rightarrow> ValidationResult \<Rightarrow> ValidationResult" where
  "check_conflicts i (a # b # rest) result =
     check_conflicts (i + 1) (b # rest)
       (if start_offset b \<le> end_offset a
        then (add_error (OffsetConflict i) result)\<lparr>needs_recalculation := True\<rparr>
        else result)"
| "check_conflicts i rest result = result"

definition validate_wsc_entries :: "pylib \<Rightarrow> WSCEntry list \<Rightarrow> ValidationResult" where
  "validate_wsc_entries L entries =
     (let r = check_conflicts 1 entries (validate_each L 0 entries new_result)
      in r\<lparr>is_valid := (errors r = [])\<rparr>)"

text \<open>
  \<open>recompile_wsc_file\<close> on the text read from the input file. The third component is
  the content of the output file, \<open>None\<close> when no file is written.
\<close>

definition recompile_wsc_file ::
  "pylib \<Rightarrow> ustr \<Rightarrow> bool \<Rightarrow> bool \<times> ValidationResult \<times> bytes option" where
  "recompile_wsc_file L text_content preserve_offsets =
     (let (entries, parse_result) = parse_github_format L text_content in
      if \<not> is_valid parse_result then (False, parse_result, None)
      else
        (let validation_result = validate_wsc_entries L entries in
         if \<not> is_valid validation_result then (False, validation_result, None)
         else
           (let final_result = new_result
                  \<lparr>errors := errors parse_result,
                   warnings := warnings parse_result @ warnings validation_result,
                   suggestions := suggestions parse_result @ suggestions validation_result,
                   needs_recalculation := needs_recalculation validation_result\<rparr>
            in case reconstruct_wsc_binary L entries preserve_offsets of
                 (None, entries') \<Rightarrow> (False, add_error FailedToReconstruct final_result, None)
               | (Some binary, entries') \<Rightarrow>
                   (let r1 = add_suggestion (SuccessfullyRecompiled (length entries'))
                               (final_result\<lparr>is_valid := True\<rparr>);
                        r2 = (if preserve_offsets \<and> \<not> fst (preserve_original_offsets L entries')
                              then add_warning OffsetsRecalculated r1 else r1)
                    in (True, r2, Some binary)))))"

section \<open>A fragment of the library, for concrete inputs\<close>

text \<open>
  The closed statements below need the library at concrete inputs. \<open>sample_lib\<close> agrees
  with CPython 3.11 on the inputs it is used at: CP932 and Shift-JIS on ASCII and on the
  eighteen kana and kanji of \<open>sample_table\<close> (the name and the sentences of the
  repository's tests), UTF-8 on ASCII, \<open>int(s, 16)\<close> on plain hexadecimal digits,
  \<open>str.isprintable\<close> on ASCII, kana and the CJK ideographs. Outside the fragment it
  answers \<open>None\<close> (or not printable), where the library may well succeed.
\<close>

definition sample_table :: "(nat \<times> byte \<times> byte) list" where
  "sample_table =
     [(0x591C, (0x96, 0xE9)),
      (0x4E45, (0x8B, 0x76)),
      (0x3053, (0x82, 0xB1)),
      (0x3093, (0x82, 0xF1)),
      (0x306B, (0x82, 0xC9)),
      (0x3061, (0x82, 0xBF)),
      (0x306F, (0x82, 0xCD)),
      (0x4E16, (0x90, 0xA2)),
      (0x754C, (0x8A, 0x45)),
      (0x4ECA, (0x8D, 0xA1)),
      (0x65E5, (0x93, 0xFA)),
      (0x826F, (0x97, 0xC7)),
      (0x3044, (0x82, 0xA2)),
      (0x5929, (0x93, 0x56)),
      (0x6C17, (0x8B, 0x43)),
      (0x3067, (0x82, 0xC5)),
      (0x3059, (0x82, 0xB7)),
      (0x306D, (0x82, 0xCB))]"

fun sample_decode :: "bytes \<Rightarrow> ustr option" where
  "sample_decode [] = Some []"
| "sample_decode (b # bs) =
     (if b < 0x80 then map_option ((#) (unat b)) (sample_decode bs)
      else
        (case bs of
           [] \<Rightarrow> None
         | b2 # bs' \<Rightarrow>
             (case map_of (map (\<lambda>(c, p). (p, c)) sample_table) (b, b2) of
                None \<Rightarrow> None
              | Some c \<Rightarrow> map_option ((#) c) (sample_decode bs'))))"

fun sample_encode :: "ustr \<Rightarrow> bytes option" where
  "sample_encode [] = Some []"
| "sample_encode (c # cs) =
     (if c < 0x80 then map_option ((#) (of_nat c)) (sample_encode cs)
      else
        (case map_of sample_table c of
           None \<Rightarrow> None
         | Some (b1, b2) \<Rightarrow> map_option (\<lambda>r. b1 # b2 # r) (sample_encode cs)))"

definition sample_utf8 :: "bytes \<Rightarrow> ustr option" where
  "sample_utf8 raw = (if list_all (\<lambda>b. b < 0x80) raw then Some (map unat raw) else None)"

definition hex_value :: "nat \<Rightarrow> int option" where
  "hex_value c =
     (if 48 \<le> c \<and> c \<le> 57 then Some (int c - 48)
      else if 65 \<le> c \<and> c \<le> 70 then Some (int c - 55)
      else if 97 \<le> c \<and> c \<le> 102 then Some (int c - 87)
      else None)"

fun sample_hex :: "int \<Rightarrow> ustr \<Rightarrow> int option" where
  "sample_hex acc [] = Some acc"
| "sample_hex acc (c # cs) =
     (case hex_value c of None \<Rightarrow> None | Some d \<Rightarrow> sample_hex (16 * acc + d) cs)"

definition sample_int16 :: "ustr \<Rightarrow> int option" where
  "sample_int16 s = (if s = [] then None else sample_hex 0 s)"

definition sample_isprintable :: "nat \<Rightarrow> bool" where
  "sample_isprintable c \<longleftrightarrow>
     (32 \<le> c \<and> c \<le> 126) \<or> (0x3041 \<le> c \<and> c \<le> 0x3096) \<or>
     (0x30A1 \<le> c \<and> c \<le> 0x30FA) \<or> (0x4E00 \<le> c \<and> c \<le> 0x9FFF)"

definition sample_lib :: pylib where
  "sample_lib =
     \<lparr>dec_cp932 = sample_decode, dec_sjis = sample_decode, dec_utf8 = sample_utf8,
      enc_cp932 = sample_encode, enc_sjis = sample_encode,
      isprintable = sample_isprintable, int16 = sample_int16\<rparr>"

section \<open>Notions the properties are stated with\<close>

text \<open>
  A run as \<open>extract_all_null_strings\<close> should emit it: a non-empty range of non-zero
  bytes that cannot be extended on either side, with its bytes and their decoding.
\<close>

definition run_ok :: "pylib \<Rightarrow> bytes \<Rightarrow> run \<Rightarrow> bool" where
  "run_ok L data r =
     (case r of (s, e, raw, d) \<Rightarrow>
        s < e \<and> e \<le> length data \<and> raw = slice data s e \<and> 0 \<notin> set raw \<and>
        (s = 0 \<or> data ! (s - 1) = 0) \<and> (e = length data \<or> data ! e = 0) \<and>
        d = fst (decode_try L raw))"

text \<open>
  The buffer rebuilt from the runs: from position \<open>pos\<close> up to length \<open>N\<close>, the bytes
  of each run at its range and a null byte at every position outside the runs (the
  terminators and the skipped nulls).
\<close>

fun rebuild :: "nat \<Rightarrow> run list \<Rightarrow> nat \<Rightarrow> bytes" where
  "rebuild pos [] N = replicate (N - pos) 0"
| "rebuild pos ((s, e, raw, d) # rs) N = replicate (s - pos) 0 @ raw @ rebuild e rs N"

text \<open>The total length of the binaries of a list of entries.\<close>

definition running_total :: "pylib \<Rightarrow> WSCEntry list \<Rightarrow> int" where
  "running_total L es = int (length (concat (map (entry_binary L) es)))"

section \<open>Properties of the decoder and of the extraction\<close>

text \<open>
  C7. For every byte slice, the empty one included, \<open>decode_try\<close> returns a decoded
  string and an encoding tag and raises nothing: the loop over the decoders always
  returns (its last decoder, Latin-1, accepts every byte sequence), trying CP932, then
  Shift-JIS, then UTF-8 in this order.
\<close>

theorem decode_try_total:
  "decode_loop L DECODERS raw \<noteq> None \<and>
   decode_try L raw =
     (case dec_cp932 L raw of
        Some s \<Rightarrow> (s, CP932)
      | None \<Rightarrow>
          (case dec_sjis L raw of
             Some s \<Rightarrow> (s, SHIFT_JIS)
           | None \<Rightarrow>
               (case dec_utf8 L raw of
                  Some s \<Rightarrow> (s, UTF8)
                | None \<Rightarrow> (map unat raw, LATIN1))))"
  by (simp add: decode_try_def DECODERS_def split: option.splits)

theorem decode_try_total_witness:
  "decode_try sample_lib [] = ([], CP932) \<and> decode_try sample_lib [0x82] = ([130], LATIN1)"
  using decode_try_total [of sample_lib "[]"] decode_try_total [of sample_lib "[0x82]"]
  by (simp add: sample_lib_def sample_utf8_def)

lemma scan_run_le: "pos \<le> length data \<Longrightarrow> scan_run data pos \<le> length data"
proof (induction data pos rule: scan_run.induct)
  case (1 data pos)
  show ?case
  proof (cases "pos < length data \<and> data ! pos \<noteq> 0")
    case True
    with 1 have "scan_run data (pos + 1) \<le> length data" by simp
    with True show ?thesis by (simp add: scan_run.simps [of data pos])
  next
    case False
    with 1 show ?thesis by (auto simp add: scan_run.simps [of data pos])
  qed
qed

lemma scan_run_stop: "scan_run data pos < length data \<Longrightarrow> data ! (scan_run data pos) = 0"
proof (induction data pos rule: scan_run.induct)
  case (1 data pos)
  show ?case
  proof (cases "pos < length data \<and> data ! pos \<noteq> 0")
    case True
    then have eq: "scan_run data pos = scan_run data (pos + 1)"
      by (simp add: scan_run.simps [of data pos])
    with 1 True show ?thesis by simp
  next
    case False
    then have "scan_run data pos = pos" by (auto simp add: scan_run.simps [of data pos])
    with 1 False show ?thesis by auto
  qed
qed

lemma scan_run_nonzero: "pos \<le> i \<Longrightarrow> i < scan_run data pos \<Longrightarrow> data ! i \<noteq> 0"
proof (induction data pos rule: scan_run.induct)
  case (1 data pos)
  show ?case
  proof (cases "pos < length data \<and> data ! pos \<noteq> 0")
    case True
    then have eq: "scan_run data pos = scan_run data (pos + 1)"
      by (simp add: scan_run.simps [of data pos])
    show ?thesis
    proof (cases "i = pos")
      case True
      with \<open>pos < length data \<and> data ! pos \<noteq> 0\<close> show ?thesis by simp
    next
      case False
      with 1 True eq show ?thesis by simp
    qed
  next
    case False
    then have "scan_run data pos = pos" by (auto simp add: scan_run.simps [of data pos])
    with 1 show ?thesis by simp
  qed
qed

lemma scan_run_gt: "pos < length data \<Longrightarrow> data ! pos \<noteq> 0 \<Longrightarrow> pos < scan_run data pos"
  using scan_run_ge [of "pos + 1" data] by (simp add: scan_run.simps [of data pos])

lemma slice_nonzero:
  assumes "e \<le> length data" "\<And>i. s \<le> i \<Longrightarrow> i < e \<Longrightarrow> data ! i \<noteq> (0::byte)"
  shows "0 \<notin> set (slice data s e)"
proof
  assume "0 \<in> set (slice data s e)"
  then obtain k where k: "k < length (slice data s e)" "slice data s e ! k = 0"
    by (auto simp add: in_set_conv_nth)
  from k(1) assms(1) have "k < e - s" by (simp add: slice_def)
  with k assms(1) have "data ! (s + k) = 0" by (simp add: slice_def)
  moreover from \<open>k < e - s\<close> have "s \<le> s + k" "s + k < e" by simp_all
  ultimately show False using assms(2) by blast
qed

lemma extract_loop_acc: "extract_loop L data pos out = out @ extract_loop L data pos []"
proof (induction "length data - pos" arbitrary: pos out rule: less_induct)
  case less
  show ?case
  proof (cases "pos < length data")
    case False
    then show ?thesis by (simp add: extract_loop.simps [of L data pos])
  next
    case True
    show ?thesis
    proof (cases "data ! pos = 0")
      case z: True
      from True have "length data - (pos + 1) < length data - pos" by simp
      from less [OF this] have "extract_loop L data (pos + 1) out = out @ extract_loop L data (pos + 1) []" .
      with True z show ?thesis by (simp add: extract_loop.simps [of L data pos])
    next
      case nz: False
      let ?e = "scan_run data pos"
      let ?r = "(pos, ?e, slice data pos ?e, fst (decode_try L (slice data pos ?e)))"
      from True scan_run_ge [of pos data] have m: "length data - (?e + 1) < length data - pos" by simp
      have a: "extract_loop L data (?e + 1) (out @ [?r]) = (out @ [?r]) @ extract_loop L data (?e + 1) []"
        by (rule less [OF m])
      have b: "extract_loop L data (?e + 1) [?r] = [?r] @ extract_loop L data (?e + 1) []"
        by (rule less [OF m])
      from True nz a b show ?thesis by (simp add: extract_loop.simps [of L data pos] Let_def)
    qed
  qed
qed

lemma extract_loop_unfold:
  "extract_loop L data pos [] =
     (if pos < length data then
        (if data ! pos = 0 then extract_loop L data (pos + 1) []
         else (pos, scan_run data pos, slice data pos (scan_run data pos),
               fst (decode_try L (slice data pos (scan_run data pos))))
              # extract_loop L data (scan_run data pos + 1) [])
      else [])"
  using extract_loop_acc [of L data "scan_run data pos + 1"
      "[(pos, scan_run data pos, slice data pos (scan_run data pos),
         fst (decode_try L (slice data pos (scan_run data pos))))]"]
  by (simp add: extract_loop.simps [of L data pos "[]"] Let_def)

lemma extract_loop_past: "length data \<le> pos \<Longrightarrow> extract_loop L data pos out = out"
  by (simp add: extract_loop.simps [of L data pos])

lemma extract_loop_starts:
  "r \<in> set (extract_loop L data pos []) \<Longrightarrow> pos \<le> fst r"
proof (induction "length data - pos" arbitrary: pos rule: less_induct)
  case less
  show ?case
  proof (cases "pos < length data")
    case False
    with less.prems show ?thesis by (simp add: extract_loop_unfold [of L data pos])
  next
    case True
    show ?thesis
    proof (cases "data ! pos = 0")
      case z: True
      from True have m: "length data - (pos + 1) < length data - pos" by simp
      from less.prems True z have "r \<in> set (extract_loop L data (pos + 1) [])"
        by (simp add: extract_loop_unfold [of L data pos])
      from less.hyps [OF m this] show ?thesis by simp
    next
      case nz: False
      let ?e = "scan_run data pos"
      from True scan_run_ge [of pos data] have m: "length data - (?e + 1) < length data - pos" by simp
      from less.prems True nz have "fst r = pos \<or> r \<in> set (extract_loop L data (?e + 1) [])"
        by (auto simp add: extract_loop_unfold [of L data pos])
      then show ?thesis
      proof
        assume "fst r = pos" then show ?thesis by simp
      next
        assume "r \<in> set (extract_loop L data (?e + 1) [])"
        from less.hyps [OF m this] scan_run_ge [of pos data] show ?thesis by simp
      qed
    qed
  qed
qed

lemma extract_loop_runs:
  "pos = 0 \<or> length data < pos \<or> data ! (pos - 1) = 0 \<Longrightarrow>
   r \<in> set (extract_loop L data pos []) \<Longrightarrow> run_ok L data r"
proof (induction "length data - pos" arbitrary: pos rule: less_induct)
  case less
  show ?case
  proof (cases "pos < length data")
    case False
    with less.prems show ?thesis by (simp add: extract_loop_unfold [of L data pos])
  next
    case True
    show ?thesis
    proof (cases "data ! pos = 0")
      case z: True
      from True have m: "length data - (pos + 1) < length data - pos" by simp
      from less.prems True z have "r \<in> set (extract_loop L data (pos + 1) [])"
        by (simp add: extract_loop_unfold [of L data pos])
      moreover from z have "pos + 1 = 0 \<or> length data < pos + 1 \<or> data ! (pos + 1 - 1) = 0" by simp
      ultimately show ?thesis using less.hyps [OF m] by blast
    next
      case nz: False
      let ?e = "scan_run data pos"
      let ?r = "(pos, ?e, slice data pos ?e, fst (decode_try L (slice data pos ?e)))"
      from True scan_run_ge [of pos data] have m: "length data - (?e + 1) < length data - pos" by simp
      from less.prems True nz have "r = ?r \<or> r \<in> set (extract_loop L data (?e + 1) [])"
        by (auto simp add: extract_loop_unfold [of L data pos])
      then show ?thesis
      proof
        assume r: "r = ?r"
        have e_le: "?e \<le> length data" using True by (simp add: scan_run_le)
        have "pos < ?e" using True nz by (rule scan_run_gt)
        moreover have "0 \<notin> set (slice data pos ?e)"
          using e_le scan_run_nonzero [of pos _ data] by (rule slice_nonzero)
        moreover have "?e = length data \<or> data ! ?e = 0"
          using e_le scan_run_stop [of data pos] by (cases "?e < length data") auto
        moreover have "pos = 0 \<or> data ! (pos - 1) = 0" using less.prems(1) True by auto
        ultimately show ?thesis using r e_le by (simp add: run_ok_def)
      next
        assume in_rest: "r \<in> set (extract_loop L data (?e + 1) [])"
        have e_le: "?e \<le> length data" using True by (simp add: scan_run_le)
        have "?e + 1 = 0 \<or> length data < ?e + 1 \<or> data ! (?e + 1 - 1) = 0"
          using e_le scan_run_stop [of data pos] by (cases "?e < length data") auto
        from less.hyps [OF m this in_rest] show ?thesis .
      qed
    qed
  qed
qed

lemma rebuild_skip:
  "pos < N \<Longrightarrow> \<forall>r\<in>set rs. pos + 1 \<le> fst r \<Longrightarrow> rebuild pos rs N = 0 # rebuild (pos + 1) rs N"
proof (cases rs)
  case Nil
  assume "pos < N"
  then have "N - pos = Suc (N - (pos + 1))" by simp
  with Nil show ?thesis by (simp del: replicate_Suc add: replicate_Suc [symmetric])
next
  case (Cons r rs')
  assume "\<forall>r\<in>set rs. pos + 1 \<le> fst r"
  with Cons have "pos + 1 \<le> fst r" by simp
  then have "fst r - pos = Suc (fst r - (pos + 1))" by simp
  with Cons show ?thesis by (cases r) (simp del: replicate_Suc add: replicate_Suc [symmetric])
qed

lemma rebuild_extract_loop:
  "rebuild pos (extract_loop L data pos []) (length data) = drop pos data"
proof (induction "length data - pos" arbitrary: pos rule: less_induct)
  case less
  show ?case
  proof (cases "pos < length data")
    case False
    then show ?thesis by (simp add: extract_loop_unfold [of L data pos])
  next
    case True
    show ?thesis
    proof (cases "data ! pos = 0")
      case z: True
      from True have m: "length data - (pos + 1) < length data - pos" by simp
      have "rebuild pos (extract_loop L data (pos + 1) []) (length data)
          = 0 # rebuild (pos + 1) (extract_loop L data (pos + 1) []) (length data)"
        using True extract_loop_starts [of _ L data "pos + 1"] by (intro rebuild_skip) auto
      also have "\<dots> = 0 # drop (pos + 1) data" using less [OF m] by simp
      also have "\<dots> = drop pos data" using True z by (simp add: Cons_nth_drop_Suc [symmetric])
      finally show ?thesis using True z by (simp add: extract_loop_unfold [of L data pos])
    next
      case nz: False
      let ?e = "scan_run data pos"
      let ?rest = "extract_loop L data (?e + 1) []"
      from True scan_run_ge [of pos data] have m: "length data - (?e + 1) < length data - pos" by simp
      have e_le: "?e \<le> length data" using True by (simp add: scan_run_le)
      have tail: "rebuild ?e ?rest (length data) = drop ?e data"
      proof (cases "?e < length data")
        case False
        with e_le show ?thesis by (simp add: extract_loop_past)
      next
        case lt: True
        have "rebuild ?e ?rest (length data) = 0 # rebuild (?e + 1) ?rest (length data)"
          using lt extract_loop_starts [of _ L data "?e + 1"] by (intro rebuild_skip) auto
        also have "\<dots> = 0 # drop (?e + 1) data" using less [OF m] by simp
        also have "\<dots> = drop ?e data"
          using lt scan_run_stop [OF lt] by (simp add: Cons_nth_drop_Suc [symmetric])
        finally show ?thesis .
      qed
      have "slice data pos ?e @ drop ?e data = drop pos data"
      proof -
        have "drop ?e data = drop (?e - pos) (drop pos data)"
          using scan_run_ge [of pos data] by simp
        then have "slice data pos ?e @ drop ?e data
            = take (?e - pos) (drop pos data) @ drop (?e - pos) (drop pos data)"
          by (simp only: slice_def)
        then show ?thesis by (simp only: append_take_drop_id)
      qed
      with tail True nz show ?thesis by (simp add: extract_loop_unfold [of L data pos])
    qed
  qed
qed

text \<open>
  C6. For every buffer, \<open>extract_all_null_strings\<close> emits only maximal runs of
  non-zero bytes, each with its absolute half-open range and its bytes, never an empty
  run; and the runs' bytes, put back at their ranges with a null byte everywhere else
  (the terminators and the skipped nulls), are the buffer again. The function is total:
  a tail with no final null is a run that ends at the length of the buffer.
\<close>

theorem extract_all_null_strings_complete:
  "(\<forall>r\<in>set (extract_all_null_strings L data). run_ok L data r) \<and>
   rebuild 0 (extract_all_null_strings L data) (length data) = data"
  using extract_loop_runs [of 0 data _ L] rebuild_extract_loop [of 0 L data]
  by (auto simp add: extract_all_null_strings_def)

lemmas extract_eval =
  extract_all_null_strings_def extract_loop.simps scan_run.simps slice_def Let_def
  decode_try_def DECODERS_def sample_lib_def sample_table_def

lemma extract_sample:
  "extract_all_null_strings sample_lib [0x41, 0, 0, 0x42, 0x43] =
     [(0, 1, [0x41], [65]), (3, 5, [0x42, 0x43], [66, 67])]"
  by (simp add: extract_eval)

theorem extract_all_null_strings_complete_witness:
  "extract_all_null_strings sample_lib [0x41, 0, 0, 0x42, 0x43] =
     [(0, 1, [0x41], [65]), (3, 5, [0x42, 0x43], [66, 67])] \<and>
   run_ok sample_lib [0x41, 0, 0, 0x42, 0x43] (0, 1, [0x41], [65]) \<and>
   run_ok sample_lib [0x41, 0, 0, 0x42, 0x43] (3, 5, [0x42, 0x43], [66, 67]) \<and>
   rebuild 0 [(0, 1, [0x41], [65]), (3, 5, [0x42, 0x43], [66, 67])] 5 =
     [0x41, 0, 0, 0x42, 0x43]"
  using extract_all_null_strings_complete [of sample_lib "[0x41, 0, 0, 0x42, 0x43]"]
  by (simp add: extract_sample)

section \<open>Properties of the reconstruction\<close>

lemma encode_marked_last: "encode_marked m L s \<noteq> [] \<and> last (encode_marked m L s) = 0"
  by (simp add: encode_marked_def split: option.splits)

lemma content_to_binary_last:
  "content_to_binary L c sp \<noteq> [] \<and> last (content_to_binary L c sp) = 0"
  by (simp add: content_to_binary_def encode_marked_last Let_def)

lemma entry_binary_last: "entry_binary L e \<noteq> [] \<and> last (entry_binary L e) = 0"
  by (simp add: entry_binary_def content_to_binary_last)

lemma join_binary_calculate:
  "join_binary acc (calculate_from L c es) = Some (acc @ concat (map (entry_binary L) es))"
  by (induction es arbitrary: acc c) (simp_all add: Let_def)

lemma join_binary_stored:
  "join_binary acc (map (\<lambda>e. e\<lparr>binary_data := Some (entry_binary L e)\<rparr>) es)
     = Some (acc @ concat (map (entry_binary L) es))"
  by (induction es arbitrary: acc) simp_all

lemma preserve_all_match:
  "\<forall>e\<in>set es. int (length (entry_binary L e)) = original_length e + 1 \<Longrightarrow>
   preserve_original_offsets L es
     = (True, map (\<lambda>e. e\<lparr>binary_data := Some (entry_binary L e)\<rparr>) es)"
  by (induction es) (simp_all add: Let_def)

lemma preserve_some_mismatch:
  "\<exists>e\<in>set es. int (length (entry_binary L e)) \<noteq> original_length e + 1 \<Longrightarrow>
   fst (preserve_original_offsets L es) = False"
proof (induction es)
  case Nil
  then show ?case by simp
next
  case (Cons a es)
  show ?case
  proof (cases "int (length (entry_binary L a)) = original_length a + 1")
    case False
    then show ?thesis by (simp add: Let_def)
  next
    case True
    with Cons.prems have "\<exists>e\<in>set es. int (length (entry_binary L e)) \<noteq> original_length e + 1"
      by auto
    from Cons.IH [OF this] True show ?thesis
      by (cases "preserve_original_offsets L es") (simp add: Let_def)
  qed
qed

lemma preserve_keeps:
  "map (\<lambda>e. e\<lparr>binary_data := None\<rparr>) (snd (preserve_original_offsets L es))
     = map (\<lambda>e. e\<lparr>binary_data := None\<rparr>) es"
  by (induction es) (auto simp add: Let_def split: prod.splits)

lemma entry_binary_cong:
  "e1\<lparr>binary_data := None\<rparr> = e2\<lparr>binary_data := None\<rparr> \<Longrightarrow> entry_binary L e1 = entry_binary L e2"
proof -
  assume h: "e1\<lparr>binary_data := None\<rparr> = e2\<lparr>binary_data := None\<rparr>"
  have "content e1 = content (e1\<lparr>binary_data := None\<rparr>)" by simp
  also have "\<dots> = content e2" by (simp add: h)
  finally have c: "content e1 = content e2" .
  have "is_speaker e1 = is_speaker (e1\<lparr>binary_data := None\<rparr>)" by simp
  also have "\<dots> = is_speaker e2" by (simp add: h)
  finally show ?thesis using c by (simp add: entry_binary_def)
qed

lemma update_cong:
  assumes h: "e1\<lparr>binary_data := None\<rparr> = e2\<lparr>binary_data := None\<rparr>"
  shows "e1\<lparr>binary_data := b, start_offset := s, end_offset := t\<rparr>
       = e2\<lparr>binary_data := b, start_offset := s, end_offset := t\<rparr>"
proof -
  have "e1\<lparr>binary_data := b, start_offset := s, end_offset := t\<rparr>
      = (e1\<lparr>binary_data := None\<rparr>)\<lparr>binary_data := b, start_offset := s, end_offset := t\<rparr>" by simp
  also have "\<dots> = (e2\<lparr>binary_data := None\<rparr>)\<lparr>binary_data := b, start_offset := s, end_offset := t\<rparr>"
    by (simp only: h)
  also have "\<dots> = e2\<lparr>binary_data := b, start_offset := s, end_offset := t\<rparr>" by simp
  finally show ?thesis .
qed

lemma calculate_from_cong:
  "map (\<lambda>e. e\<lparr>binary_data := None\<rparr>) es1 = map (\<lambda>e. e\<lparr>binary_data := None\<rparr>) es2 \<Longrightarrow>
   calculate_from L c es1 = calculate_from L c es2"
proof (induction es1 arbitrary: es2 c)
  case Nil
  then show ?case by simp
next
  case (Cons e1 es1)
  then obtain e2 es2' where es2: "es2 = e2 # es2'" by (cases es2) auto
  with Cons.prems have h: "e1\<lparr>binary_data := None\<rparr> = e2\<lparr>binary_data := None\<rparr>"
    and t: "map (\<lambda>e. e\<lparr>binary_data := None\<rparr>) es1 = map (\<lambda>e. e\<lparr>binary_data := None\<rparr>) es2'"
    by simp_all
  have b: "entry_binary L e1 = entry_binary L e2" using h by (rule entry_binary_cong)
  show ?case
    using Cons.IH [OF t] update_cong [OF h] by (simp add: es2 b Let_def)
qed

lemma reconstruct_recompute:
  "reconstruct_wsc_binary L es False
     = (Some (concat (map (entry_binary L) es)), calculate_new_offsets L es)"
  by (simp add: reconstruct_wsc_binary_def calculate_new_offsets_def join_binary_calculate)

lemma reconstruct_preserved:
  "\<forall>e\<in>set es. int (length (entry_binary L e)) = original_length e + 1 \<Longrightarrow>
   reconstruct_wsc_binary L es True
     = (Some (concat (map (entry_binary L) es)),
        map (\<lambda>e. e\<lparr>binary_data := Some (entry_binary L e)\<rparr>) es)"
  by (simp add: reconstruct_wsc_binary_def preserve_all_match join_binary_stored)

lemma reconstruct_fallback:
  assumes "\<exists>e\<in>set es. int (length (entry_binary L e)) \<noteq> original_length e + 1"
  shows "reconstruct_wsc_binary L es True
     = (Some (concat (map (entry_binary L) es)), calculate_new_offsets L es)"
proof -
  obtain ok es1 where p: "preserve_original_offsets L es = (ok, es1)" by (cases "preserve_original_offsets L es")
  from preserve_some_mismatch [OF assms] p have ok: "\<not> ok" by simp
  from preserve_keeps [of L es] p
  have "map (\<lambda>e. e\<lparr>binary_data := None\<rparr>) es1 = map (\<lambda>e. e\<lparr>binary_data := None\<rparr>) es" by simp
  then have "calculate_from L 0 es1 = calculate_from L 0 es" by (rule calculate_from_cong)
  with p ok show ?thesis
    by (simp add: reconstruct_wsc_binary_def calculate_new_offsets_def join_binary_calculate)
qed

lemma calculate_from_length: "length (calculate_from L c es) = length es"
  by (induction es arbitrary: c) (simp_all add: Let_def)

lemma calculate_from_nth:
  "i < length es \<Longrightarrow>
   calculate_from L c es ! i =
     (es ! i)\<lparr>binary_data := Some (entry_binary L (es ! i)),
              start_offset := c + running_total L (take i es),
              end_offset := c + running_total L (take i es) + int (length (entry_binary L (es ! i))) - 1\<rparr>"
proof (induction es arbitrary: c i)
  case Nil
  then show ?case by simp
next
  case (Cons e es)
  show ?case
  proof (cases i)
    case 0
    then show ?thesis by (simp add: Let_def running_total_def)
  next
    case (Suc j)
    with Cons.prems have "j < length es" by simp
    from Cons.IH [OF this, of "c + int (length (entry_binary L e))"] Suc
    show ?thesis by (simp add: Let_def running_total_def add.assoc)
  qed
qed

text \<open>
  C1. For every entry list: if the binary of every entry (\<open>content_to_binary\<close> of its
  content and speaker flag) is \<open>original_length + 1\<close> bytes long, reconstruction with
  \<open>preserve_offsets\<close> keeps every start and end offset and returns the binaries
  joined in entry order; if one entry's length differs, every entry gets recomputed
  offsets: its start is the total length of the binaries before it, its end that total
  plus its own length minus one.
\<close>

theorem reconstruct_preserve_threshold:
  "((\<forall>e\<in>set es. int (length (entry_binary L e)) = original_length e + 1) \<longrightarrow>
      reconstruct_wsc_binary L es True
        = (Some (concat (map (entry_binary L) es)),
           map (\<lambda>e. e\<lparr>binary_data := Some (entry_binary L e)\<rparr>) es) \<and>
      map start_offset (snd (reconstruct_wsc_binary L es True)) = map start_offset es \<and>
      map end_offset (snd (reconstruct_wsc_binary L es True)) = map end_offset es) \<and>
   ((\<exists>e\<in>set es. int (length (entry_binary L e)) \<noteq> original_length e + 1) \<longrightarrow>
      snd (reconstruct_wsc_binary L es True) = calculate_new_offsets L es \<and>
      (\<forall>i<length es.
         start_offset (calculate_new_offsets L es ! i) = running_total L (take i es) \<and>
         end_offset (calculate_new_offsets L es ! i)
           = running_total L (take i es) + int (length (entry_binary L (es ! i))) - 1))"
proof (intro conjI impI allI)
  assume a: "\<forall>e\<in>set es. int (length (entry_binary L e)) = original_length e + 1"
  show r: "reconstruct_wsc_binary L es True
        = (Some (concat (map (entry_binary L) es)),
           map (\<lambda>e. e\<lparr>binary_data := Some (entry_binary L e)\<rparr>) es)"
    using a by (rule reconstruct_preserved)
  show "map start_offset (snd (reconstruct_wsc_binary L es True)) = map start_offset es"
    by (simp add: r comp_def)
  show "map end_offset (snd (reconstruct_wsc_binary L es True)) = map end_offset es"
    by (simp add: r comp_def)
next
  assume b: "\<exists>e\<in>set es. int (length (entry_binary L e)) \<noteq> original_length e + 1"
  show "snd (reconstruct_wsc_binary L es True) = calculate_new_offsets L es"
    by (simp add: reconstruct_fallback [OF b])
next
  fix i assume "i < length es"
  then show "start_offset (calculate_new_offsets L es ! i) = running_total L (take i es)"
    by (simp add: calculate_new_offsets_def calculate_from_nth)
next
  fix i assume "i < length es"
  then show "end_offset (calculate_new_offsets L es ! i)
           = running_total L (take i es) + int (length (entry_binary L (es ! i))) - 1"
    by (simp add: calculate_new_offsets_def calculate_from_nth)
qed


lemma reconstruct_bytes:
  "fst (reconstruct_wsc_binary L es p) = Some (concat (map (entry_binary L) es))"
proof (cases p)
  case False
  then show ?thesis by (simp add: reconstruct_recompute)
next
  case True
  show ?thesis
  proof (cases "\<forall>e\<in>set es. int (length (entry_binary L e)) = original_length e + 1")
    case t: True
    with True show ?thesis by (simp add: reconstruct_preserved)
  next
    case False
    then have "\<exists>e\<in>set es. int (length (entry_binary L e)) \<noteq> original_length e + 1" by simp
    with True show ?thesis by (simp add: reconstruct_fallback)
  qed
qed

lemma calculate_from_no_offsets:
  "map (\<lambda>e. e\<lparr>start_offset := 0, end_offset := 0\<rparr>) (calculate_from L c es)
     = map (\<lambda>e. e\<lparr>binary_data := Some (entry_binary L e), start_offset := 0, end_offset := 0\<rparr>) es"
  by (induction es arbitrary: c) (simp_all add: Let_def)

lemma reconstruct_entries_no_offsets:
  "map (\<lambda>e. e\<lparr>start_offset := 0, end_offset := 0\<rparr>) (snd (reconstruct_wsc_binary L es p))
     = map (\<lambda>e. e\<lparr>binary_data := Some (entry_binary L e), start_offset := 0, end_offset := 0\<rparr>) es"
proof (cases p)
  case False
  then show ?thesis
    by (simp add: reconstruct_recompute calculate_new_offsets_def calculate_from_no_offsets)
next
  case True
  show ?thesis
  proof (cases "\<forall>e\<in>set es. int (length (entry_binary L e)) = original_length e + 1")
    case t: True
    with True show ?thesis by (simp add: reconstruct_preserved comp_def)
  next
    case False
    then have "\<exists>e\<in>set es. int (length (entry_binary L e)) \<noteq> original_length e + 1" by simp
    with True show ?thesis
      by (simp add: reconstruct_fallback calculate_new_offsets_def calculate_from_no_offsets)
  qed
qed

text \<open>
  C9. The bytes \<open>reconstruct_wsc_binary\<close> returns are the same with
  \<open>preserve_offsets\<close> true and false: the binaries of the entries, joined in entry
  order. The two modes differ at most in the start and end offsets stored on the
  entries.
\<close>

theorem reconstruct_bytes_independent:
  "fst (reconstruct_wsc_binary L es True) = Some (concat (map (entry_binary L) es)) \<and>
   fst (reconstruct_wsc_binary L es False) = Some (concat (map (entry_binary L) es)) \<and>
   map (\<lambda>e. e\<lparr>start_offset := 0, end_offset := 0\<rparr>) (snd (reconstruct_wsc_binary L es True))
     = map (\<lambda>e. e\<lparr>start_offset := 0, end_offset := 0\<rparr>) (snd (reconstruct_wsc_binary L es False))"
  by (simp add: reconstruct_bytes reconstruct_entries_no_offsets)

lemma concat_binary_last:
  "es \<noteq> [] \<Longrightarrow>
   concat (map (entry_binary L) es) \<noteq> [] \<and> last (concat (map (entry_binary L) es)) = 0"
proof (induction es)
  case Nil
  then show ?case by simp
next
  case (Cons e es)
  show ?case
  proof (cases "es = []")
    case True
    then show ?thesis by (simp add: entry_binary_last)
  next
    case False
    with Cons.IH show ?thesis by (simp add: entry_binary_last)
  qed
qed

lemma entry_binary_has_null: "1 \<le> count_list (entry_binary L e) 0"
proof -
  have ne: "entry_binary L e \<noteq> []" and l: "last (entry_binary L e) = 0"
    using entry_binary_last [of L e] by simp_all
  from last_in_set [OF ne] have "0 \<in> set (entry_binary L e)" by (simp only: l)
  then have "count_list (entry_binary L e) 0 \<noteq> 0" by (simp only: count_list_0_iff) simp
  then show ?thesis by simp
qed

lemma concat_binary_nulls: "length es \<le> count_list (concat (map (entry_binary L) es)) 0"
proof (induction es)
  case Nil
  then show ?case by simp
next
  case (Cons e es)
  with entry_binary_has_null [of L e] show ?case by simp
qed

text \<open>
  C10. \<open>content_to_binary\<close> never returns the empty byte string and its last byte is
  null (a lone null for content that is empty after stripping); so the reconstructed
  buffer holds at least one null per entry, and for a non-empty entry list it is
  non-empty and ends with a null.
\<close>

theorem content_to_binary_terminated:
  "content_to_binary L c sp \<noteq> [] \<and> last (content_to_binary L c sp) = 0 \<and>
   (strip c = [] \<longrightarrow> content_to_binary L c sp = [0]) \<and>
   (\<exists>b. fst (reconstruct_wsc_binary L es p) = Some b \<and> length es \<le> count_list b 0 \<and>
        (es \<noteq> [] \<longrightarrow> b \<noteq> [] \<and> last b = 0))"
proof -
  have 1: "content_to_binary L c sp \<noteq> [] \<and> last (content_to_binary L c sp) = 0"
    by (rule content_to_binary_last)
  have 2: "strip c = [] \<longrightarrow> content_to_binary L c sp = [0]"
    by (simp add: content_to_binary_def)
  have 3: "fst (reconstruct_wsc_binary L es p) = Some (concat (map (entry_binary L) es))"
    by (rule reconstruct_bytes)
  have 4: "length es \<le> count_list (concat (map (entry_binary L) es)) 0"
    by (rule concat_binary_nulls)
  have 5: "es \<noteq> [] \<longrightarrow>
      concat (map (entry_binary L) es) \<noteq> [] \<and> last (concat (map (entry_binary L) es)) = 0"
    using concat_binary_last [of es L] by blast
  from 1 2 3 4 5 show ?thesis by blast
qed

lemmas binary_eval =
  new_entry_def entry_binary_def content_to_binary_def strip_def py_isspace_def
  re_japanese_name_def dollar_def name_char_def has_resource_pattern_def startswith_def
  encode_marked_def sample_lib_def sample_table_def Let_def

lemma sample_day: "entry_binary sample_lib (new_entry 0 7 [68, 65, 89, 48, 57, 48, 52] False)
   = [0x44, 0x41, 0x59, 0x30, 0x39, 0x30, 0x34, 0]"
  by (simp add: binary_eval)

lemma sample_short: "entry_binary sample_lib (new_entry 0 7 [68, 65, 89] False) = [0x44, 0x41, 0x59, 0]"
  by (simp add: binary_eval)

lemma sample_ab: "entry_binary sample_lib (new_entry 8 14 [65, 66] False) = [0x41, 0x42, 0]"
  by (simp add: binary_eval)

theorem reconstruct_preserve_threshold_witness:
  "reconstruct_wsc_binary sample_lib [new_entry 0 7 [68, 65, 89, 48, 57, 48, 52] False] True
     = (Some [0x44, 0x41, 0x59, 0x30, 0x39, 0x30, 0x34, 0],
        [(new_entry 0 7 [68, 65, 89, 48, 57, 48, 52] False)
           \<lparr>binary_data := Some [0x44, 0x41, 0x59, 0x30, 0x39, 0x30, 0x34, 0]\<rparr>]) \<and>
   map start_offset (snd (reconstruct_wsc_binary sample_lib
      [new_entry 0 7 [68, 65, 89] False, new_entry 8 14 [65, 66] False] True)) = [0, 4] \<and>
   map end_offset (snd (reconstruct_wsc_binary sample_lib
      [new_entry 0 7 [68, 65, 89] False, new_entry 8 14 [65, 66] False] True)) = [3, 6]"
proof -
  let ?a = "[new_entry 0 7 [68, 65, 89, 48, 57, 48, 52] False]"
  let ?b = "[new_entry 0 7 [68, 65, 89] False, new_entry 8 14 [65, 66] False]"
  have ha: "\<forall>e\<in>set ?a. int (length (entry_binary sample_lib e)) = original_length e + 1"
    by (simp add: sample_day) (simp add: new_entry_def)
  have hb: "\<exists>e\<in>set ?b. int (length (entry_binary sample_lib e)) \<noteq> original_length e + 1"
    by (simp add: sample_short) (simp add: new_entry_def)
  from reconstruct_preserve_threshold [of ?a sample_lib] ha
  have 1: "reconstruct_wsc_binary sample_lib ?a True
     = (Some (concat (map (entry_binary sample_lib) ?a)),
        map (\<lambda>e. e\<lparr>binary_data := Some (entry_binary sample_lib e)\<rparr>) ?a)" by blast
  from reconstruct_preserve_threshold [of ?b sample_lib] hb
  have 2: "snd (reconstruct_wsc_binary sample_lib ?b True) = calculate_new_offsets sample_lib ?b"
    by blast
  show ?thesis
    by (simp add: 1 2 sample_day sample_short sample_ab calculate_new_offsets_def)
qed

theorem reconstruct_bytes_independent_witness:
  "fst (reconstruct_wsc_binary sample_lib
      [new_entry 0 7 [68, 65, 89] False, new_entry 8 14 [65, 66] False] True)
     = Some [0x44, 0x41, 0x59, 0, 0x41, 0x42, 0] \<and>
   fst (reconstruct_wsc_binary sample_lib
      [new_entry 0 7 [68, 65, 89] False, new_entry 8 14 [65, 66] False] False)
     = Some [0x44, 0x41, 0x59, 0, 0x41, 0x42, 0]"
  using reconstruct_bytes_independent
    [of sample_lib "[new_entry 0 7 [68, 65, 89] False, new_entry 8 14 [65, 66] False]"]
  by (simp add: sample_short sample_ab)

theorem content_to_binary_terminated_witness:
  "content_to_binary sample_lib [] True = [0] \<and>
   content_to_binary sample_lib [65, 66] False = [0x41, 0x42, 0] \<and>
   fst (reconstruct_wsc_binary sample_lib [new_entry 8 14 [65, 66] False] False)
     = Some [0x41, 0x42, 0]"
  using content_to_binary_terminated [of sample_lib "[]" True "[new_entry 8 14 [65, 66] False]" False]
    content_to_binary_terminated [of sample_lib "[65, 66]" False "[]" False]
    sample_ab
  by (simp add: reconstruct_bytes) (simp add: binary_eval)

end
